theory Spec2Isabelle
  imports Main "HOL-Library.Word"
begin

section \<open>The pairing authentication service (internal/auth/service.go)\<close>

text \<open>
  The service keeps three Go maps behind one mutex: the pairing codes, the tokens and the
  device index. Every exported method holds the lock from entry to return, so a method is
  modelled as a function from the state before the call to the state after it.

  What the methods take from their environment is an argument of the model:
  \<^item> the clock: an instant is an \<open>int\<close> (Unix nanoseconds), a duration is an \<open>int\<close>;
    \<open>t.After(u)\<close> is \<open>u < t\<close> and \<open>t.Before(u)\<close> is \<open>t < u\<close>. A method reads the clock
    several times while it holds the lock; the model gives the method one instant \<open>now\<close>
    for all of these readings;
  \<^item> the random source \<open>crypto/rand\<close>: a finite supply of bytes, from which a read of
    \<open>n\<close> bytes takes the first \<open>n\<close> and fails when fewer are left;
  \<^item> SHA-256 followed by URL-safe base64, which is library code: a parameter \<open>digest\<close>
    from byte sequences to strings;
  \<^item> the order in which \<open>range\<close> visits the keys of a map, which Go leaves unspecified:
    a list \<open>order\<close> of keys, wherever the result of the loop depends on the keys visited.
\<close>

type_synonym time = int
type_synonym duration = int
type_synonym rng = "8 word list"

record PairingCode =
  Code :: string
  pc_CreatedAt :: time
  pc_ExpiresAt :: time
  pc_DeviceID :: string
  Used :: bool

record Token =
  Value :: string
  DeviceID :: string
  DeviceName :: string
  CreatedAt :: time
  ExpiresAt :: time
  LastUsedAt :: time
  Permissions :: "string list"

record Service =
  pairingCodes :: "string \<rightharpoonup> PairingCode"
  tokens :: "string \<rightharpoonup> Token"
  deviceTokens :: "string \<rightharpoonup> string"
  codeLength :: int
  codeExpiry :: duration
  tokenExpiry :: duration
  maxActiveDevices :: int
  storagePath :: string

record ServiceConfig =
  cfg_CodeLength :: int
  cfg_CodeExpiry :: duration
  cfg_TokenExpiry :: duration
  cfg_MaxActiveDevices :: int
  cfg_StoragePath :: string

text \<open>
  The five \<open>AuthError\<close> values of the source, followed by the wrapped failures
  (\<open>fmt.Errorf\<close>) of code generation, token generation and persistence, the raw failure of
  \<open>rand.Read\<close>, and the panic of \<open>make([]byte, length)\<close> on a negative length.
\<close>

datatype AuthError =
    ErrInvalidCode
  | ErrCodeExpired
  | ErrCodeAlreadyUsed
  | ErrInvalidToken
  | ErrTokenExpired
  | ErrRandRead
  | ErrGenerateCode
  | ErrGenerateUniqueCode
  | ErrGenerateToken
  | PanicMakeSlice
  | ErrCreateStorageDir
  | ErrMarshalState
  | ErrWriteStateFile
  | ErrReadStateFile
  | ErrUnmarshalState

definition minute :: duration where
  "minute = 60 * 1000000000"

definition hour :: duration where
  "hour = 60 * minute"

subsection \<open>Random codes and token values\<close>

definition rand_Read :: "nat \<Rightarrow> rng \<Rightarrow> (8 word list \<times> rng) option" where
  "rand_Read n r = (if n \<le> length r then Some (take n r, drop n r) else None)"

definition charset :: string where
  "charset = ''0123456789''"

text \<open>One of the two (identical) passes of \<open>generateNumericCode\<close>:
  \<open>result[i] = charset[randomBytes[i] % byte(len(charset))]\<close> for \<open>i\<close> from 0 to \<open>length - 1\<close>.\<close>

definition fill_digits :: "8 word list \<Rightarrow> nat \<Rightarrow> string \<Rightarrow> string" where
  "fill_digits randomBytes n result =
     fold (\<lambda>i res. res[i := charset ! unat ((randomBytes ! i) mod 10)]) [0..<n] result"

definition generateNumericCode :: "int \<Rightarrow> rng \<Rightarrow> (AuthError + string) \<times> rng" where
  "generateNumericCode len r =
     (if len < 0 then (Inl PanicMakeSlice, r)
      else case rand_Read (nat len) r of
             None \<Rightarrow> (Inl ErrRandRead, r)
           | Some (randomBytes, r') \<Rightarrow>
               (Inr (fill_digits randomBytes (nat len)
                      (fill_digits randomBytes (nat len) (replicate (nat len) (CHR 0x00)))), r'))"

definition generateSecureToken ::
  "(8 word list \<Rightarrow> string) \<Rightarrow> time \<Rightarrow> rng \<Rightarrow> (AuthError + string) \<times> rng" where
  "generateSecureToken digest now r =
     (case rand_Read 32 r of
        None \<Rightarrow> (Inl ErrRandRead, r)
      | Some (bytes, r') \<Rightarrow> (Inr (digest (bytes @ [word_of_int now])), r'))"

subsection \<open>Construction\<close>

definition DefaultConfig :: ServiceConfig where
  "DefaultConfig = \<lparr>cfg_CodeLength = 6, cfg_CodeExpiry = 5 * minute,
     cfg_TokenExpiry = 30 * 24 * hour, cfg_MaxActiveDevices = 5, cfg_StoragePath = []\<rparr>"

text \<open>The state \<open>NewService\<close> builds before it tries to load the saved tokens.\<close>

definition emptyService :: "ServiceConfig \<Rightarrow> Service" where
  "emptyService config =
     \<lparr>pairingCodes = Map.empty, tokens = Map.empty, deviceTokens = Map.empty,
      codeLength = (if cfg_CodeLength config = 0 then 6 else cfg_CodeLength config),
      codeExpiry = (if cfg_CodeExpiry config = 0 then 5 * minute else cfg_CodeExpiry config),
      tokenExpiry = (if cfg_TokenExpiry config = 0 then 30 * 24 * hour else cfg_TokenExpiry config),
      maxActiveDevices =
        (if cfg_MaxActiveDevices config = 0 then 5 else cfg_MaxActiveDevices config),
      storagePath = cfg_StoragePath config\<rparr>"

subsection \<open>Pairing codes\<close>

definition cleanupExpiredCodesLocked :: "time \<Rightarrow> Service \<Rightarrow> Service" where
  "cleanupExpiredCodesLocked now s =
     s\<lparr>pairingCodes := (\<lambda>code. case pairingCodes s code of
          None \<Rightarrow> None
        | Some pc \<Rightarrow> if pc_ExpiresAt pc < now \<or> Used pc then None else Some pc)\<rparr>"

text \<open>The loop \<open>for s.pairingCodes[code] != nil\<close>: it draws again for as long as the code
  drawn is a key of the table. Not returning is the value \<open>None\<close>.\<close>

partial_function (option) uniqueCodeLoop ::
  "(string \<rightharpoonup> PairingCode) \<Rightarrow> int \<Rightarrow> string \<Rightarrow> rng \<Rightarrow> ((AuthError + string) \<times> rng) option" where
  "uniqueCodeLoop codes len code r =
     (if codes code \<noteq> None
      then (case generateNumericCode len r of
              (Inl e, r') \<Rightarrow> Some (Inl ErrGenerateUniqueCode, r')
            | (Inr code', r') \<Rightarrow> uniqueCodeLoop codes len code' r')
      else Some (Inr code, r))"

definition GeneratePairingCode ::
  "time \<Rightarrow> rng \<Rightarrow> Service \<Rightarrow> ((AuthError + PairingCode) \<times> Service \<times> rng) option" where
  "GeneratePairingCode now r s0 =
     (let s = cleanupExpiredCodesLocked now s0 in
      case generateNumericCode (codeLength s) r of
        (Inl e, r1) \<Rightarrow> Some (Inl ErrGenerateCode, s, r1)
      | (Inr code0, r1) \<Rightarrow>
          (case uniqueCodeLoop (pairingCodes s) (codeLength s) code0 r1 of
             None \<Rightarrow> None
           | Some (Inl e, r2) \<Rightarrow> Some (Inl e, s, r2)
           | Some (Inr code, r2) \<Rightarrow>
               let pc = \<lparr>Code = code, pc_CreatedAt = now, pc_ExpiresAt = now + codeExpiry s,
                         pc_DeviceID = [], Used = False\<rparr>
               in Some (Inr pc, s\<lparr>pairingCodes := (pairingCodes s)(code \<mapsto> pc)\<rparr>, r2)))"

text \<open>\<open>GetActivePairingCode\<close> returns the first unused, unexpired code that \<open>range\<close> visits.\<close>

definition GetActivePairingCode :: "string list \<Rightarrow> time \<Rightarrow> Service \<Rightarrow> PairingCode option" where
  "GetActivePairingCode order now s =
     (case filter (\<lambda>pc. \<not> Used pc \<and> now < pc_ExpiresAt pc)
             (List.map_filter (pairingCodes s) order) of
        [] \<Rightarrow> None
      | pc # _ \<Rightarrow> Some pc)"

subsection \<open>Tokens\<close>

definition createTokenLocked ::
  "(8 word list \<Rightarrow> string) \<Rightarrow> time \<Rightarrow> rng \<Rightarrow> string \<Rightarrow> string \<Rightarrow> Service
     \<Rightarrow> (AuthError + Token) \<times> Service \<times> rng" where
  "createTokenLocked digest now r deviceID deviceName s0 =
     (let s = (case deviceTokens s0 deviceID of
                 Some oldToken \<Rightarrow> s0\<lparr>tokens := (tokens s0)(oldToken := None)\<rparr>
               | None \<Rightarrow> s0)
      in case generateSecureToken digest now r of
           (Inl e, r') \<Rightarrow> (Inl ErrGenerateToken, s, r')
         | (Inr tokenValue, r') \<Rightarrow>
             let token = \<lparr>Value = tokenValue, DeviceID = deviceID, DeviceName = deviceName,
                          CreatedAt = now, ExpiresAt = now + tokenExpiry s, LastUsedAt = now,
                          Permissions = [''read'', ''write'', ''execute'']\<rparr>
             in (Inr token,
                 s\<lparr>tokens := (tokens s)(tokenValue \<mapsto> token),
                   deviceTokens := (deviceTokens s)(deviceID \<mapsto> tokenValue)\<rparr>,
                 r'))"

text \<open>One iteration of the loop of \<open>removeOldestTokenLocked\<close>; the accumulator is the pair
  \<open>(oldestKey, oldestToken)\<close>, \<open>None\<close> while \<open>oldestToken\<close> is nil.\<close>

definition oldestStep ::
  "(string \<rightharpoonup> Token) \<Rightarrow> string \<Rightarrow> (string \<times> Token) option \<Rightarrow> (string \<times> Token) option" where
  "oldestStep tk key acc =
     (case tk key of
        None \<Rightarrow> acc
      | Some token \<Rightarrow>
          (case acc of
             None \<Rightarrow> Some (key, token)
           | Some (oldestKey, oldestToken) \<Rightarrow>
               if LastUsedAt token < LastUsedAt oldestToken then Some (key, token) else acc))"

definition findOldest :: "string list \<Rightarrow> (string \<rightharpoonup> Token) \<Rightarrow> (string \<times> Token) option" where
  "findOldest order tk = fold (oldestStep tk) order None"

definition removeOldestTokenLocked :: "string list \<Rightarrow> Service \<Rightarrow> Service" where
  "removeOldestTokenLocked order s =
     (case findOldest order (tokens s) of
        None \<Rightarrow> s
      | Some (oldestKey, oldestToken) \<Rightarrow>
          s\<lparr>tokens := (tokens s)(oldestKey := None),
            deviceTokens := (deviceTokens s)(DeviceID oldestToken := None)\<rparr>)"

text \<open>The counting loop of \<open>ValidatePairingCode\<close>. Its result does not depend on the order of
  the visit, so the model uses the same enumeration as for the eviction.\<close>

definition activeCount :: "string list \<Rightarrow> time \<Rightarrow> (string \<rightharpoonup> Token) \<Rightarrow> int" where
  "activeCount order now tk =
     int (length (filter (\<lambda>k. case tk k of Some token \<Rightarrow> now < ExpiresAt token | None \<Rightarrow> False)
                     order))"

definition ValidatePairingCode ::
  "(8 word list \<Rightarrow> string) \<Rightarrow> string list \<Rightarrow> time \<Rightarrow> rng \<Rightarrow> string \<Rightarrow> string \<Rightarrow> string
     \<Rightarrow> Service \<Rightarrow> (AuthError + Token) \<times> Service \<times> rng" where
  "ValidatePairingCode digest order now r code deviceID deviceName s =
     (case pairingCodes s code of
        None \<Rightarrow> (Inl ErrInvalidCode, s, r)
      | Some pc \<Rightarrow>
          if pc_ExpiresAt pc < now
          then (Inl ErrCodeExpired, s\<lparr>pairingCodes := (pairingCodes s)(code := None)\<rparr>, r)
          else if Used pc then (Inl ErrCodeAlreadyUsed, s, r)
          else
            let s1 = (if maxActiveDevices s \<le> activeCount order now (tokens s)
                      then removeOldestTokenLocked order s else s);
                s2 = s1\<lparr>pairingCodes :=
                          ((pairingCodes s1)(code \<mapsto> pc\<lparr>Used := True, pc_DeviceID := deviceID\<rparr>))
                            (code := None)\<rparr>
            in createTokenLocked digest now r deviceID deviceName s2)"

definition ValidateToken :: "time \<Rightarrow> string \<Rightarrow> Service \<Rightarrow> (AuthError + Token) \<times> Service" where
  "ValidateToken now tokenValue s =
     (case tokens s tokenValue of
        None \<Rightarrow> (Inl ErrInvalidToken, s)
      | Some token \<Rightarrow>
          if ExpiresAt token < now
          then (Inl ErrTokenExpired,
                s\<lparr>tokens := (tokens s)(tokenValue := None),
                  deviceTokens := (deviceTokens s)(DeviceID token := None)\<rparr>)
          else let token' = token\<lparr>LastUsedAt := now\<rparr>
               in (Inr token', s\<lparr>tokens := (tokens s)(tokenValue \<mapsto> token')\<rparr>))"

definition RevokeToken :: "string \<Rightarrow> Service \<Rightarrow> bool \<times> Service" where
  "RevokeToken tokenValue s =
     (case tokens s tokenValue of
        None \<Rightarrow> (False, s)
      | Some token \<Rightarrow>
          (True, s\<lparr>tokens := (tokens s)(tokenValue := None),
                   deviceTokens := (deviceTokens s)(DeviceID token := None)\<rparr>))"

definition RevokeDevice :: "string \<Rightarrow> Service \<Rightarrow> bool \<times> Service" where
  "RevokeDevice deviceID s =
     (case deviceTokens s deviceID of
        None \<Rightarrow> (False, s)
      | Some tokenValue \<Rightarrow>
          (True, s\<lparr>tokens := (tokens s)(tokenValue := None),
                   deviceTokens := (deviceTokens s)(deviceID := None)\<rparr>))"

definition ListActiveDevices :: "string list \<Rightarrow> time \<Rightarrow> Service \<Rightarrow> Token list" where
  "ListActiveDevices order now s =
     filter (\<lambda>token. now < ExpiresAt token) (List.map_filter (tokens s) order)"

definition RefreshToken :: "time \<Rightarrow> string \<Rightarrow> Service \<Rightarrow> (AuthError + Token) \<times> Service" where
  "RefreshToken now tokenValue s =
     (case tokens s tokenValue of
        None \<Rightarrow> (Inl ErrInvalidToken, s)
      | Some token \<Rightarrow>
          if ExpiresAt token < now
          then (Inl ErrTokenExpired,
                s\<lparr>tokens := (tokens s)(tokenValue := None),
                  deviceTokens := (deviceTokens s)(DeviceID token := None)\<rparr>)
          else let token' = token\<lparr>ExpiresAt := now + tokenExpiry s, LastUsedAt := now\<rparr>
               in (Inr token', s\<lparr>tokens := (tokens s)(tokenValue \<mapsto> token')\<rparr>))"

subsection \<open>The sweeper\<close>

text \<open>One wake of \<open>cleanupExpired\<close>: the codes first, then the tokens in the order of the visit;
  an expired token is deleted together with the index row of its device.\<close>

definition sweepTokenStep :: "time \<Rightarrow> string \<Rightarrow> Service \<Rightarrow> Service" where
  "sweepTokenStep now tokenValue s =
     (case tokens s tokenValue of
        None \<Rightarrow> s
      | Some token \<Rightarrow>
          if ExpiresAt token < now
          then s\<lparr>tokens := (tokens s)(tokenValue := None),
                 deviceTokens := (deviceTokens s)(DeviceID token := None)\<rparr>
          else s)"

definition cleanupExpired :: "string list \<Rightarrow> time \<Rightarrow> Service \<Rightarrow> Service" where
  "cleanupExpired order now s = fold (sweepTokenStep now) order (cleanupExpiredCodesLocked now s)"

subsection \<open>Persistence\<close>

record persistedState =
  ps_Tokens :: "string \<rightharpoonup> Token"
  ps_DeviceTokens :: "string \<rightharpoonup> string"
  ps_SavedAt :: time

text \<open>
  The file system and the JSON codec are library code. \<open>SaveState\<close> gets the outcome of
  \<open>os.MkdirAll\<close>, \<open>json.MarshalIndent\<close> and \<open>os.WriteFile\<close> as three booleans and returns
  the document it wrote, if any; \<open>LoadState\<close> gets the outcome of \<open>os.ReadFile\<close> followed by
  \<open>json.Unmarshal\<close>. Encoding and decoding a document are taken to be inverse to each other.
\<close>

datatype readOutcome = NotExist | ReadFailed | UnmarshalFailed | Decoded persistedState

definition snapshot :: "time \<Rightarrow> Service \<Rightarrow> persistedState" where
  "snapshot now s =
     (let savedTokens = (\<lambda>k. case tokens s k of
                               None \<Rightarrow> None
                             | Some v \<Rightarrow> if now < ExpiresAt v then Some v else None)
      in \<lparr>ps_Tokens = savedTokens,
          ps_DeviceTokens = (\<lambda>k. case deviceTokens s k of
                                   None \<Rightarrow> None
                                 | Some v \<Rightarrow> if savedTokens v \<noteq> None then Some v else None),
          ps_SavedAt = now\<rparr>)"

definition SaveState ::
  "bool \<Rightarrow> bool \<Rightarrow> bool \<Rightarrow> time \<Rightarrow> Service \<Rightarrow> AuthError option \<times> persistedState option" where
  "SaveState mkdirOk marshalOk writeOk now s =
     (if storagePath s = [] then (None, None)
      else let state = snapshot now s in
        if \<not> mkdirOk then (Some ErrCreateStorageDir, None)
        else if \<not> marshalOk then (Some ErrMarshalState, None)
        else if \<not> writeOk then (Some ErrWriteStateFile, None)
        else (None, Some state))"

definition importState :: "time \<Rightarrow> persistedState \<Rightarrow> Service \<Rightarrow> Service" where
  "importState now state s =
     (let tokens' = (\<lambda>k. case ps_Tokens state k of
                           None \<Rightarrow> tokens s k
                         | Some v \<Rightarrow> if now < ExpiresAt v then Some v else tokens s k)
      in s\<lparr>tokens := tokens',
           deviceTokens := (\<lambda>k. case ps_DeviceTokens state k of
                                  None \<Rightarrow> deviceTokens s k
                                | Some v \<Rightarrow> if tokens' v \<noteq> None then Some v
                                            else deviceTokens s k)\<rparr>)"

definition LoadState :: "readOutcome \<Rightarrow> time \<Rightarrow> Service \<Rightarrow> AuthError option \<times> Service" where
  "LoadState file now s =
     (if storagePath s = [] then (None, s)
      else case file of
             NotExist \<Rightarrow> (None, s)
           | ReadFailed \<Rightarrow> (Some ErrReadStateFile, s)
           | UnmarshalFailed \<Rightarrow> (Some ErrUnmarshalState, s)
           | Decoded state \<Rightarrow> (None, importState now state s))"

definition NewService :: "ServiceConfig \<Rightarrow> readOutcome \<Rightarrow> time \<Rightarrow> Service" where
  "NewService config file now =
     (let s = emptyService config
      in if cfg_StoragePath config \<noteq> [] then snd (LoadState file now s) else s)"

subsection \<open>Concrete inputs\<close>

text \<open>A small store used to run the model: two bound devices, one pending code, a ceiling
  of three devices (\<open>demoService\<close>) or of two (\<open>fullService\<close>). \<open>toyDigest\<close> stands in for the digest at concrete inputs only; it reads
  the byte appended after the 32 random ones.\<close>

definition toyDigest :: "8 word list \<Rightarrow> string" where
  "toyDigest bs = ''tok-'' @ map (\<lambda>b. charset ! unat (b mod 10)) (drop 32 bs)"

definition demoConfig :: ServiceConfig where
  "demoConfig = \<lparr>cfg_CodeLength = 6, cfg_CodeExpiry = 300, cfg_TokenExpiry = 1000,
     cfg_MaxActiveDevices = 3, cfg_StoragePath = ''auth.json''\<rparr>"

definition tokenA :: Token where
  "tokenA = \<lparr>Value = ''tokA'', DeviceID = ''devA'', DeviceName = ''Pixel 7'', CreatedAt = 0,
     ExpiresAt = 1000, LastUsedAt = 10, Permissions = [''read'', ''write'', ''execute'']\<rparr>"

definition tokenB :: Token where
  "tokenB = \<lparr>Value = ''tokB'', DeviceID = ''devB'', DeviceName = ''Tablet'', CreatedAt = 5,
     ExpiresAt = 1005, LastUsedAt = 20, Permissions = [''read'', ''write'', ''execute'']\<rparr>"

definition demoCode :: PairingCode where
  "demoCode = \<lparr>Code = ''048213'', pc_CreatedAt = 0, pc_ExpiresAt = 300, pc_DeviceID = [],
     Used = False\<rparr>"

definition demoService :: Service where
  "demoService = (emptyService demoConfig)
     \<lparr>pairingCodes := [''048213'' \<mapsto> demoCode],
      tokens := [''tokA'' \<mapsto> tokenA, ''tokB'' \<mapsto> tokenB],
      deviceTokens := [''devA'' \<mapsto> ''tokA'', ''devB'' \<mapsto> ''tokB'']\<rparr>"

definition fullService :: Service where
  "fullService = demoService\<lparr>maxActiveDevices := 2\<rparr>"

text \<open>A store with a ceiling of one device, and that device bound.\<close>

definition singleService :: Service where
  "singleService = demoService
     \<lparr>tokens := [''tokA'' \<mapsto> tokenA], deviceTokens := [''devA'' \<mapsto> ''tokA''],
      maxActiveDevices := 1\<rparr>"

text \<open>A document written by a run whose token lifetime was longer than the 1000 of
  \<open>demoConfig\<close>.\<close>

definition tokenL :: Token where
  "tokenL = \<lparr>Value = ''tokL'', DeviceID = ''devL'', DeviceName = ''Laptop'', CreatedAt = 0,
     ExpiresAt = 5000, LastUsedAt = 0, Permissions = [''read'', ''write'', ''execute'']\<rparr>"

definition longLivedDoc :: persistedState where
  "longLivedDoc = \<lparr>ps_Tokens = [''tokL'' \<mapsto> tokenL], ps_DeviceTokens = [''devL'' \<mapsto> ''tokL''],
     ps_SavedAt = 0\<rparr>"

text \<open>The token issued to a third device at instant 60 from 32 random bytes, under
  \<open>toyDigest\<close> and the lifetime 1000.\<close>

definition tokenC :: Token where
  "tokenC = \<lparr>Value = ''tok-0'', DeviceID = ''devC'', DeviceName = ''Phone'', CreatedAt = 60,
     ExpiresAt = 1060, LastUsedAt = 60, Permissions = [''read'', ''write'', ''execute'']\<rparr>"

text \<open>The code issued at instant 60 when the first draw collides with the pending code.\<close>

definition newCode :: PairingCode where
  "newCode = \<lparr>Code = ''111111'', pc_CreatedAt = 60, pc_ExpiresAt = 360, pc_DeviceID = [],
     Used = False\<rparr>"

subsection \<open>Predicates of the properties\<close>

text \<open>\<open>order\<close> is a visit of the keys of \<open>m\<close>: every key once.\<close>

definition visits :: "'k list \<Rightarrow> ('k \<rightharpoonup> 'v) \<Rightarrow> bool" where
  "visits order m \<longleftrightarrow> distinct order \<and> set order = dom m"

text \<open>Mutual consistency of the device index and the token table: every row of the index
  names a token of the table, and every token of the table is indexed under its device.\<close>

definition consistent :: "Service \<Rightarrow> bool" where
  "consistent s \<longleftrightarrow>
     (\<forall>d v. deviceTokens s d = Some v \<longrightarrow> tokens s v \<noteq> None) \<and>
     (\<forall>v t. tokens s v = Some t \<longrightarrow> deviceTokens s (DeviceID t) = Some v)"

text \<open>The same with the index and the table inverse to each other: the token that a row of
  the index names belongs to the device of the row.\<close>

definition indexed :: "Service \<Rightarrow> bool" where
  "indexed s \<longleftrightarrow>
     (\<forall>d v. deviceTokens s d = Some v \<longrightarrow> (\<exists>t. tokens s v = Some t \<and> DeviceID t = d)) \<and>
     (\<forall>v t. tokens s v = Some t \<longrightarrow> deviceTokens s (DeviceID t) = Some v)"

text \<open>The digits of a code.\<close>

definition numeric :: "string \<Rightarrow> bool" where
  "numeric code \<longleftrightarrow> (\<forall>c \<in> set code. c \<in> set ''0123456789'')"

section \<open>Properties\<close>

subsection \<open>Unfolding at concrete inputs\<close>

lemmas demo_defs = demoService_def fullService_def singleService_def demoCode_def emptyService_def
  demoConfig_def tokenA_def tokenB_def tokenC_def

lemmas redeem_defs = ValidatePairingCode_def createTokenLocked_def generateSecureToken_def
  removeOldestTokenLocked_def findOldest_def oldestStep_def activeCount_def rand_Read_def
  toyDigest_def charset_def Let_def

subsection \<open>The eviction loop\<close>

text \<open>The loop of \<open>removeOldestTokenLocked\<close> ends on a stored token whose last-used time is
  least among the tokens of the keys it visited, and on none only when it visited no token.\<close>

lemma fold_oldestStep_Some:
  assumes "fold (oldestStep tk) order acc = Some (k, t)"
    and "\<And>k0 t0. acc = Some (k0, t0) \<Longrightarrow> tk k0 = Some t0"
  shows "tk k = Some t \<and> (acc = Some (k, t) \<or> k \<in> set order)"
  using assms
proof (induction order arbitrary: acc)
  case Nil
  then show ?case by simp
next
  case (Cons x xs)
  have ok: "\<And>k0 t0. oldestStep tk x acc = Some (k0, t0) \<Longrightarrow> tk k0 = Some t0"
    using Cons.prems(2) by (auto simp: oldestStep_def split: option.splits if_splits)
  from Cons.prems(1) have "fold (oldestStep tk) xs (oldestStep tk x acc) = Some (k, t)" by simp
  from Cons.IH[OF this ok] have 1: "tk k = Some t"
    and 2: "oldestStep tk x acc = Some (k, t) \<or> k \<in> set xs" by auto
  from 2 have "acc = Some (k, t) \<or> k \<in> set (x # xs)"
    by (auto simp: oldestStep_def split: option.splits if_splits)
  with 1 show ?case by simp
qed

lemma oldestStep_le_acc:
  "acc = Some (k0, t0) \<Longrightarrow>
     \<exists>k1 t1. oldestStep tk x acc = Some (k1, t1) \<and> LastUsedAt t1 \<le> LastUsedAt t0"
  by (cases "tk x") (auto simp: oldestStep_def)

lemma oldestStep_le_key:
  "tk x = Some t' \<Longrightarrow>
     \<exists>k1 t1. oldestStep tk x acc = Some (k1, t1) \<and> LastUsedAt t1 \<le> LastUsedAt t'"
  by (cases acc) (auto simp: oldestStep_def)

lemma fold_oldestStep_min:
  assumes "fold (oldestStep tk) order acc = Some (k, t)"
  shows "(\<forall>k0 t0. acc = Some (k0, t0) \<longrightarrow> LastUsedAt t \<le> LastUsedAt t0) \<and>
         (\<forall>k' \<in> set order. \<forall>t'. tk k' = Some t' \<longrightarrow> LastUsedAt t \<le> LastUsedAt t')"
  using assms
proof (induction order arbitrary: acc)
  case Nil
  then show ?case by simp
next
  case (Cons x xs)
  from Cons.prems have f: "fold (oldestStep tk) xs (oldestStep tk x acc) = Some (k, t)" by simp
  from Cons.IH[OF f]
  have ih1: "\<And>k1 t1. oldestStep tk x acc = Some (k1, t1) \<Longrightarrow> LastUsedAt t \<le> LastUsedAt t1"
    and ih2: "\<And>k' t'. k' \<in> set xs \<Longrightarrow> tk k' = Some t' \<Longrightarrow> LastUsedAt t \<le> LastUsedAt t'"
    by blast+
  have a: "LastUsedAt t \<le> LastUsedAt t0" if "acc = Some (k0, t0)" for k0 t0
  proof -
    from oldestStep_le_acc[of acc k0 t0 tk x] that obtain k1 t1
      where "oldestStep tk x acc = Some (k1, t1)" and "LastUsedAt t1 \<le> LastUsedAt t0" by blast
    with ih1[of k1 t1] show ?thesis by linarith
  qed
  have b: "LastUsedAt t \<le> LastUsedAt t'" if "tk x = Some t'" for t'
  proof -
    from oldestStep_le_key[of tk x t' acc] that obtain k1 t1
      where "oldestStep tk x acc = Some (k1, t1)" and "LastUsedAt t1 \<le> LastUsedAt t'" by blast
    with ih1[of k1 t1] show ?thesis by linarith
  qed
  from a b ih2 show ?case by auto
qed

lemma fold_oldestStep_None:
  "fold (oldestStep tk) order acc = None \<Longrightarrow> acc = None \<and> (\<forall>k \<in> set order. tk k = None)"
proof (induction order arbitrary: acc)
  case Nil
  then show ?case by simp
next
  case (Cons x xs)
  from Cons.prems have "fold (oldestStep tk) xs (oldestStep tk x acc) = None" by simp
  from Cons.IH[OF this]
  have 1: "oldestStep tk x acc = None" and 2: "\<forall>k \<in> set xs. tk k = None" by blast+
  from 1 have "acc = None \<and> tk x = None"
    by (cases acc; cases "tk x") (auto simp: oldestStep_def split: if_splits)
  with 2 show ?case by simp
qed

lemma findOldest_Some:
  assumes "findOldest order tk = Some (k, t)"
  shows "k \<in> set order" and "tk k = Some t"
    and "\<And>k' t'. k' \<in> set order \<Longrightarrow> tk k' = Some t' \<Longrightarrow> LastUsedAt t \<le> LastUsedAt t'"
  using fold_oldestStep_Some[of tk order None k t] fold_oldestStep_min[of tk order None k t] assms
  by (auto simp: findOldest_def)

lemma findOldest_None: "findOldest order tk = None \<Longrightarrow> k \<in> set order \<Longrightarrow> tk k = None"
  using fold_oldestStep_None[of tk order None] by (auto simp: findOldest_def)

lemma activeCount_pos:
  "0 < activeCount order now tk \<Longrightarrow> \<exists>k \<in> set order. tk k \<noteq> None"
  unfolding activeCount_def
  by (auto simp: filter_empty_conv split: option.splits)

lemma findOldest_at_capacity:
  assumes "maxActiveDevices s \<le> activeCount order now (tokens s)" and "0 < maxActiveDevices s"
  shows "\<exists>k t. findOldest order (tokens s) = Some (k, t)"
proof -
  from assms have "0 < activeCount order now (tokens s)" by linarith
  from activeCount_pos[OF this] obtain k0 where "k0 \<in> set order" and "tokens s k0 \<noteq> None" by blast
  with findOldest_None[of order "tokens s" k0] show ?thesis
    by (cases "findOldest order (tokens s)") auto
qed

subsection \<open>Validation of a token\<close>

text \<open>
  Claim C1. For every credential value, \<open>ValidateToken\<close> fails with \<open>ErrInvalidToken\<close> and
  leaves the store as it is when no credential with that value is stored; when the stored
  credential's expiry is in the past it fails with \<open>ErrTokenExpired\<close> and removes both the
  credential entry and the device-index row of the credential's device; otherwise it sets the
  credential's last-used time to now and returns the credential.
\<close>

theorem ValidateToken_spec:
  "(tokens s v = None \<longrightarrow> ValidateToken now v s = (Inl ErrInvalidToken, s)) \<and>
   (\<forall>t. tokens s v = Some t \<and> ExpiresAt t < now \<longrightarrow>
      ValidateToken now v s =
        (Inl ErrTokenExpired,
         s\<lparr>tokens := (tokens s)(v := None),
           deviceTokens := (deviceTokens s)(DeviceID t := None)\<rparr>)) \<and>
   (\<forall>t. tokens s v = Some t \<and> \<not> ExpiresAt t < now \<longrightarrow>
      ValidateToken now v s =
        (Inr (t\<lparr>LastUsedAt := now\<rparr>),
         s\<lparr>tokens := (tokens s)(v \<mapsto> t\<lparr>LastUsedAt := now\<rparr>)\<rparr>))"
  by (simp add: ValidateToken_def Let_def)

theorem ValidateToken_spec_witness:
  "tokens demoService ''nope'' = None \<and>
   fst (ValidateToken 500 ''nope'' demoService) = Inl ErrInvalidToken \<and>
   tokens demoService ''tokA'' = Some tokenA \<and> ExpiresAt tokenA < 2000 \<and>
   fst (ValidateToken 2000 ''tokA'' demoService) = Inl ErrTokenExpired \<and>
   tokens (snd (ValidateToken 2000 ''tokA'' demoService)) ''tokA'' = None \<and>
   deviceTokens (snd (ValidateToken 2000 ''tokA'' demoService)) ''devA'' = None \<and>
   \<not> ExpiresAt tokenA < 500 \<and>
   fst (ValidateToken 500 ''tokA'' demoService) = Inr (tokenA\<lparr>LastUsedAt := 500\<rparr>) \<and>
   tokens (snd (ValidateToken 500 ''tokA'' demoService)) ''tokA''
     = Some (tokenA\<lparr>LastUsedAt := 500\<rparr>)"
  using ValidateToken_spec [of demoService "''nope''" 500]
    ValidateToken_spec [of demoService "''tokA''" 2000]
    ValidateToken_spec [of demoService "''tokA''" 500]
  by (simp add: demoService_def tokenA_def)

subsection \<open>Redeeming an expired code\<close>

text \<open>
  Claim C9. Redeeming a stored code at a time strictly after its expiry instant fails with
  \<open>ErrCodeExpired\<close> and removes the code from the pairing-code table (nothing else changes),
  so that every later redemption attempt with the same code fails with \<open>ErrInvalidCode\<close>.
\<close>

theorem redeem_expired_code:
  assumes "pairingCodes s code = Some pc" and "pc_ExpiresAt pc < now"
  shows "ValidatePairingCode digest order now r code deviceID deviceName s =
           (Inl ErrCodeExpired, s\<lparr>pairingCodes := (pairingCodes s)(code := None)\<rparr>, r) \<and>
         (\<forall>digest' order' now' r' deviceID' deviceName'.
            fst (ValidatePairingCode digest' order' now' r' code deviceID' deviceName'
                   (s\<lparr>pairingCodes := (pairingCodes s)(code := None)\<rparr>)) = Inl ErrInvalidCode)"
  using assms by (simp add: ValidatePairingCode_def)

theorem redeem_expired_code_witness:
  "pairingCodes demoService ''048213'' = Some demoCode \<and> pc_ExpiresAt demoCode < 301 \<and>
   fst (ValidatePairingCode toyDigest [''tokA'', ''tokB''] 301 [] ''048213'' ''devC'' ''Phone''
          demoService) = Inl ErrCodeExpired \<and>
   pairingCodes (fst (snd (ValidatePairingCode toyDigest [''tokA'', ''tokB''] 301 [] ''048213''
          ''devC'' ''Phone'' demoService))) ''048213'' = None \<and>
   fst (ValidatePairingCode toyDigest [''tokA'', ''tokB''] 302 [] ''048213'' ''devC'' ''Phone''
          (fst (snd (ValidatePairingCode toyDigest [''tokA'', ''tokB''] 301 [] ''048213''
             ''devC'' ''Phone'' demoService)))) = Inl ErrInvalidCode"
proof -
  have h1: "pairingCodes demoService ''048213'' = Some demoCode"
    by (simp add: demoService_def)
  have h2: "pc_ExpiresAt demoCode < 301"
    by (simp add: demoCode_def)
  from redeem_expired_code [OF h1 h2, of toyDigest "[''tokA'', ''tokB'']" "[]" "''devC''" "''Phone''"]
  have "ValidatePairingCode toyDigest [''tokA'', ''tokB''] 301 [] ''048213'' ''devC'' ''Phone''
          demoService =
        (Inl ErrCodeExpired,
         demoService\<lparr>pairingCodes := (pairingCodes demoService)(''048213'' := None)\<rparr>, [])"
    and "fst (ValidatePairingCode toyDigest [''tokA'', ''tokB''] 302 [] ''048213'' ''devC''
          ''Phone'' (demoService\<lparr>pairingCodes := (pairingCodes demoService)(''048213'' := None)\<rparr>))
        = Inl ErrInvalidCode"
    by blast+
  with h1 h2 show ?thesis by simp
qed

subsection \<open>Redeeming a code\<close>

text \<open>
  Claim C2, as the code has it. Redeeming a stored, unused, unexpired code succeeds whenever
  the random source yields the 32 bytes of the token value, and returns a credential bound to
  the given device identifier with the permissions read, write, execute, which is then stored
  and indexed under that device. The redemption removes the code from the table, so redeeming
  the same code a second time fails with \<open>ErrInvalidCode\<close> (not with \<open>ErrCodeAlreadyUsed\<close>)
  and changes nothing.
\<close>

theorem redeem_once_then_invalid:
  assumes "pairingCodes s code = Some pc" and "\<not> pc_ExpiresAt pc < now" and "\<not> Used pc"
    and "rand_Read 32 r = Some (bytes, r')"
  shows "\<exists>tok s'.
           ValidatePairingCode digest order now r code deviceID deviceName s = (Inr tok, s', r') \<and>
           tok = \<lparr>Value = digest (bytes @ [word_of_int now]), DeviceID = deviceID,
                   DeviceName = deviceName, CreatedAt = now, ExpiresAt = now + tokenExpiry s,
                   LastUsedAt = now, Permissions = [''read'', ''write'', ''execute'']\<rparr> \<and>
           tokens s' (Value tok) = Some tok \<and> deviceTokens s' deviceID = Some (Value tok) \<and>
           pairingCodes s' code = None \<and>
           (\<forall>digest' order' now' r2 deviceID' deviceName'.
              ValidatePairingCode digest' order' now' r2 code deviceID' deviceName' s'
                = (Inl ErrInvalidCode, s', r2))"
  using assms
  by (simp add: ValidatePairingCode_def createTokenLocked_def generateSecureToken_def Let_def
        removeOldestTokenLocked_def split: option.splits prod.splits)

theorem redeem_once_then_invalid_witness:
  "pairingCodes demoService ''048213'' = Some demoCode \<and> \<not> pc_ExpiresAt demoCode < 60 \<and>
   \<not> Used demoCode \<and> rand_Read 32 (replicate 32 7) = Some (replicate 32 7, []) \<and>
   (\<exists>s'. ValidatePairingCode toyDigest [''tokA'', ''tokB''] 60 (replicate 32 7) ''048213''
            ''devC'' ''Phone'' demoService = (Inr tokenC, s', []) \<and>
         tokens s' ''tok-0'' = Some tokenC \<and> deviceTokens s' ''devC'' = Some ''tok-0'' \<and>
         pairingCodes s' ''048213'' = None \<and>
         fst (ValidatePairingCode toyDigest [''tokA'', ''tokB'', ''tok-0''] 61 (replicate 32 7)
                ''048213'' ''devC'' ''Phone'' s') = Inl ErrInvalidCode)"
proof -
  have h1: "pairingCodes demoService ''048213'' = Some demoCode" by (simp add: demoService_def)
  have h2: "\<not> pc_ExpiresAt demoCode < 60" and h3: "\<not> Used demoCode"
    by (simp_all add: demoCode_def)
  have h4: "rand_Read 32 (replicate 32 7) = Some (replicate 32 7, [])"
    by (simp add: rand_Read_def)
  have t: "tokenExpiry demoService = 1000"
    by (simp add: demoService_def emptyService_def demoConfig_def)
  from redeem_once_then_invalid [where digest = toyDigest and order = "[''tokA'', ''tokB'']"
      and deviceID = "''devC''" and deviceName = "''Phone''", OF h1 h2 h3 h4]
  obtain tok s' where
    r: "ValidatePairingCode toyDigest [''tokA'', ''tokB''] 60 (replicate 32 7) ''048213''
          ''devC'' ''Phone'' demoService = (Inr tok, s', [])"
    and tk: "tok = \<lparr>Value = toyDigest (replicate 32 7 @ [word_of_int 60]), DeviceID = ''devC'',
                   DeviceName = ''Phone'', CreatedAt = 60, ExpiresAt = 60 + tokenExpiry demoService,
                   LastUsedAt = 60, Permissions = [''read'', ''write'', ''execute'']\<rparr>"
    and p: "tokens s' (Value tok) = Some tok" "deviceTokens s' ''devC'' = Some (Value tok)"
      "pairingCodes s' ''048213'' = None"
    and again: "\<forall>digest' order' now' r2 deviceID' deviceName'.
              ValidatePairingCode digest' order' now' r2 ''048213'' deviceID' deviceName' s'
                = (Inl ErrInvalidCode, s', r2)"
    by blast
  from tk t have "tok = tokenC" by (simp add: tokenC_def toyDigest_def charset_def)
  with r p again h1 h2 h3 h4 show ?thesis by (auto simp: tokenC_def)
qed

text \<open>The claim as the specification words it fails: on the store \<open>demoService\<close> the first
  redemption of the code 048213 returns a token, and the second one, an instant later, returns
  \<open>ErrInvalidCode\<close>, which is not \<open>ErrCodeAlreadyUsed\<close>.\<close>

theorem redeem_twice_counterexample:
  "fst (ValidatePairingCode toyDigest [''tokA'', ''tokB''] 60 (replicate 32 7) ''048213''
          ''devC'' ''Phone'' demoService) = Inr tokenC \<and>
   fst (ValidatePairingCode toyDigest [''tokA'', ''tokB'', ''tok-0''] 61 (replicate 32 7)
          ''048213'' ''devC'' ''Phone''
          (fst (snd (ValidatePairingCode toyDigest [''tokA'', ''tokB''] 60 (replicate 32 7)
             ''048213'' ''devC'' ''Phone'' demoService))))
     = Inl ErrInvalidCode \<and>
   fst (ValidatePairingCode toyDigest [''tokA'', ''tokB'', ''tok-0''] 61 (replicate 32 7)
          ''048213'' ''devC'' ''Phone''
          (fst (snd (ValidatePairingCode toyDigest [''tokA'', ''tokB''] 60 (replicate 32 7)
             ''048213'' ''devC'' ''Phone'' demoService))))
     \<noteq> Inl ErrCodeAlreadyUsed"
  by (simp add: demo_defs redeem_defs)

subsection \<open>Eviction at the ceiling\<close>

text \<open>
  Claim C4. When the number of non-expired credentials has reached the configured maximum of
  bound devices (a positive number), redeeming a valid code for a device that is not yet
  bound succeeds, given that the random source yields the token value and that this value is
  not already a key of the table. The redemption removes exactly one stored credential, one
  whose last-used time is least among all stored credentials, expired ones included; after
  it, \<open>ValidateToken\<close> on the evicted value fails with \<open>ErrInvalidToken\<close>, and every other
  credential stored before is still stored, unchanged.
\<close>

theorem evict_oldest_at_capacity:
  assumes code: "pairingCodes s code = Some pc" "\<not> pc_ExpiresAt pc < now" "\<not> Used pc"
    and ord: "visits order (tokens s)"
    and cap: "maxActiveDevices s \<le> activeCount order now (tokens s)" "0 < maxActiveDevices s"
    and new: "deviceTokens s deviceID = None"
    and rnd: "rand_Read 32 r = Some (bytes, r')"
    and fresh: "tokens s (digest (bytes @ [word_of_int now])) = None"
  shows "\<exists>tok s' k t.
      ValidatePairingCode digest order now r code deviceID deviceName s = (Inr tok, s', r') \<and>
      Value tok = digest (bytes @ [word_of_int now]) \<and> DeviceID tok = deviceID \<and>
      tokens s' (Value tok) = Some tok \<and>
      tokens s k = Some t \<and>
      (\<forall>k' t'. tokens s k' = Some t' \<longrightarrow> LastUsedAt t \<le> LastUsedAt t') \<and>
      tokens s' k = None \<and>
      (\<forall>now'. ValidateToken now' k s' = (Inl ErrInvalidToken, s')) \<and>
      (\<forall>x. x \<noteq> k \<longrightarrow> tokens s x \<noteq> None \<longrightarrow> tokens s' x = tokens s x)"
proof -
  from findOldest_at_capacity[OF cap] obtain k t where f: "findOldest order (tokens s) = Some (k, t)"
    by blast
  from findOldest_Some[OF f] ord have kt: "tokens s k = Some t"
    and mn: "\<And>k' t'. tokens s k' = Some t' \<Longrightarrow> LastUsedAt t \<le> LastUsedAt t'"
    by (auto simp: visits_def)
  from kt fresh have ne: "digest (bytes @ [word_of_int now]) \<noteq> k" by auto
  let ?v = "digest (bytes @ [word_of_int now])"
  let ?tok = "\<lparr>Value = ?v, DeviceID = deviceID, DeviceName = deviceName, CreatedAt = now,
               ExpiresAt = now + tokenExpiry s, LastUsedAt = now,
               Permissions = [''read'', ''write'', ''execute'']\<rparr>"
  let ?s' = "s\<lparr>tokens := (tokens s)(k := None, ?v \<mapsto> ?tok),
               deviceTokens := (deviceTokens s)(DeviceID t := None, deviceID \<mapsto> ?v),
               pairingCodes := (pairingCodes s)(code := None)\<rparr>"
  have run: "ValidatePairingCode digest order now r code deviceID deviceName s = (Inr ?tok, ?s', r')"
    using code cap(1) f new rnd
    by (simp add: ValidatePairingCode_def createTokenLocked_def generateSecureToken_def Let_def
        removeOldestTokenLocked_def)
  have gone: "tokens ?s' k = None" using ne by simp
  have inv: "\<forall>now'. ValidateToken now' k ?s' = (Inl ErrInvalidToken, ?s')"
    using gone by (simp add: ValidateToken_def)
  have rest: "\<forall>x. x \<noteq> k \<longrightarrow> tokens s x \<noteq> None \<longrightarrow> tokens ?s' x = tokens s x"
    using fresh by auto
  have new_tok: "tokens ?s' (Value ?tok) = Some ?tok" by simp
  from run gone inv rest kt mn new_tok show ?thesis
    by (intro exI[of _ ?tok] exI[of _ ?s'] exI[of _ k] exI[of _ t]) simp
qed

theorem evict_oldest_at_capacity_witness:
  "pairingCodes fullService ''048213'' = Some demoCode \<and> \<not> pc_ExpiresAt demoCode < 60 \<and>
   \<not> Used demoCode \<and> visits [''tokA'', ''tokB''] (tokens fullService) \<and>
   maxActiveDevices fullService \<le> activeCount [''tokA'', ''tokB''] 60 (tokens fullService) \<and>
   0 < maxActiveDevices fullService \<and> deviceTokens fullService ''devC'' = None \<and>
   rand_Read 32 (replicate 32 7) = Some (replicate 32 7, []) \<and>
   tokens fullService (toyDigest (replicate 32 7 @ [word_of_int 60])) = None \<and>
   (\<exists>tok s' k t.
      ValidatePairingCode toyDigest [''tokA'', ''tokB''] 60 (replicate 32 7) ''048213'' ''devC''
        ''Phone'' fullService = (Inr tok, s', []) \<and>
      tokens fullService k = Some t \<and>
      (\<forall>k' t'. tokens fullService k' = Some t' \<longrightarrow> LastUsedAt t \<le> LastUsedAt t') \<and>
      tokens s' k = None \<and>
      (\<forall>now'. ValidateToken now' k s' = (Inl ErrInvalidToken, s')) \<and>
      (\<forall>x. x \<noteq> k \<longrightarrow> tokens fullService x \<noteq> None \<longrightarrow> tokens s' x = tokens fullService x)) \<and>
   fst (ValidatePairingCode toyDigest [''tokA'', ''tokB''] 60 (replicate 32 7) ''048213'' ''devC''
        ''Phone'' fullService) = Inr tokenC \<and>
   tokens (fst (snd (ValidatePairingCode toyDigest [''tokA'', ''tokB''] 60 (replicate 32 7)
        ''048213'' ''devC'' ''Phone'' fullService))) ''tokA'' = None \<and>
   tokens (fst (snd (ValidatePairingCode toyDigest [''tokA'', ''tokB''] 60 (replicate 32 7)
        ''048213'' ''devC'' ''Phone'' fullService))) ''tokB'' = Some tokenB \<and>
   fst (ValidateToken 70 ''tokA'' (fst (snd (ValidatePairingCode toyDigest [''tokA'', ''tokB''] 60
        (replicate 32 7) ''048213'' ''devC'' ''Phone'' fullService)))) = Inl ErrInvalidToken"
proof -
  have h1: "pairingCodes fullService ''048213'' = Some demoCode" by (simp add: demo_defs)
  have h2: "\<not> pc_ExpiresAt demoCode < 60" and h3: "\<not> Used demoCode"
    by (simp_all add: demoCode_def)
  have h4: "visits [''tokA'', ''tokB''] (tokens fullService)"
    by (auto simp: visits_def demo_defs)
  have h5: "maxActiveDevices fullService \<le> activeCount [''tokA'', ''tokB''] 60 (tokens fullService)"
    by (simp add: demo_defs activeCount_def)
  have h6: "0 < maxActiveDevices fullService" by (simp add: demo_defs)
  have h7: "deviceTokens fullService ''devC'' = None" by (simp add: demo_defs)
  have h8: "rand_Read 32 (replicate 32 7) = Some (replicate 32 7, [])"
    by (simp add: rand_Read_def)
  have h9: "tokens fullService (toyDigest (replicate 32 7 @ [word_of_int 60])) = None"
    by (simp add: demo_defs toyDigest_def charset_def)
  note inst = evict_oldest_at_capacity [where digest = toyDigest and deviceName = "''Phone''",
      OF h1 h2 h3 h4 h5 h6 h7 h8 h9]
  have run: "ValidatePairingCode toyDigest [''tokA'', ''tokB''] 60 (replicate 32 7) ''048213''
      ''devC'' ''Phone'' fullService =
      (Inr tokenC,
       fullService\<lparr>tokens := [''tokB'' \<mapsto> tokenB, ''tok-0'' \<mapsto> tokenC],
          deviceTokens := [''devB'' \<mapsto> ''tokB'', ''devC'' \<mapsto> ''tok-0''],
          pairingCodes := Map.empty\<rparr>, [])"
    by (simp add: demo_defs redeem_defs fun_upd_twist)
  have e: "fst (ValidateToken 70 ''tokA''
          (fullService\<lparr>tokens := [''tokB'' \<mapsto> tokenB, ''tok-0'' \<mapsto> tokenC],
             deviceTokens := [''devB'' \<mapsto> ''tokB'', ''devC'' \<mapsto> ''tok-0''],
             pairingCodes := Map.empty\<rparr>)) = Inl ErrInvalidToken"
    by (simp add: ValidateToken_def)
  from inst have ex: "\<exists>tok s' k t.
      ValidatePairingCode toyDigest [''tokA'', ''tokB''] 60 (replicate 32 7) ''048213'' ''devC''
        ''Phone'' fullService = (Inr tok, s', []) \<and>
      tokens fullService k = Some t \<and>
      (\<forall>k' t'. tokens fullService k' = Some t' \<longrightarrow> LastUsedAt t \<le> LastUsedAt t') \<and>
      tokens s' k = None \<and>
      (\<forall>now'. ValidateToken now' k s' = (Inl ErrInvalidToken, s')) \<and>
      (\<forall>x. x \<noteq> k \<longrightarrow> tokens fullService x \<noteq> None \<longrightarrow> tokens s' x = tokens fullService x)"
    by blast
  show ?thesis
    apply (intro conjI)
    apply (rule h1 h2 h3 h4 h5 h6 h7 h8 h9 ex)+
    apply (simp_all add: run e)
    done
qed

subsection \<open>Order of the capacity check and of supersession\<close>

text \<open>
  Claim C3, as the code has it. In \<open>ValidatePairingCode\<close> the capacity check precedes
  supersession: the non-expired credentials are counted first, the one of the redeeming device
  included, and when the count has reached the (positive) ceiling the credential with the
  least last-used time among all stored ones is evicted together with the index row of its
  device; only then does \<open>createTokenLocked\<close> remove the credential that the index still
  gives for the redeeming device. Consequently, when the store is at the ceiling and the
  redeeming device is one of the bound devices, the least recently used credential is evicted
  also when it belongs to another device.
\<close>

theorem capacity_check_precedes_supersession:
  assumes code: "pairingCodes s code = Some pc" "\<not> pc_ExpiresAt pc < now" "\<not> Used pc"
    and ord: "visits order (tokens s)"
    and cap: "maxActiveDevices s \<le> activeCount order now (tokens s)" "0 < maxActiveDevices s"
    and bound: "deviceTokens s deviceID = Some old"
    and rnd: "rand_Read 32 r = Some (bytes, r')"
  shows "\<exists>tok s' k t.
      ValidatePairingCode digest order now r code deviceID deviceName s = (Inr tok, s', r') \<and>
      Value tok = digest (bytes @ [word_of_int now]) \<and> DeviceID tok = deviceID \<and>
      tokens s k = Some t \<and>
      (\<forall>k' t'. tokens s k' = Some t' \<longrightarrow> LastUsedAt t \<le> LastUsedAt t') \<and>
      (\<forall>x. tokens s' x =
            (if x = Value tok then Some tok
             else if x = k \<or> (x = old \<and> DeviceID t \<noteq> deviceID) then None
             else tokens s x)) \<and>
      (\<forall>d. deviceTokens s' d =
            (if d = deviceID then Some (Value tok)
             else if d = DeviceID t then None
             else deviceTokens s d))"
proof -
  from findOldest_at_capacity[OF cap] obtain k t where f: "findOldest order (tokens s) = Some (k, t)"
    by blast
  from findOldest_Some[OF f] ord have kt: "tokens s k = Some t"
    and mn: "\<And>k' t'. tokens s k' = Some t' \<Longrightarrow> LastUsedAt t \<le> LastUsedAt t'"
    by (auto simp: visits_def)
  let ?v = "digest (bytes @ [word_of_int now])"
  let ?tok = "\<lparr>Value = ?v, DeviceID = deviceID, DeviceName = deviceName, CreatedAt = now,
               ExpiresAt = now + tokenExpiry s, LastUsedAt = now,
               Permissions = [''read'', ''write'', ''execute'']\<rparr>"
  obtain s' where run: "ValidatePairingCode digest order now r code deviceID deviceName s = (Inr ?tok, s', r')"
    and tk: "\<forall>x. tokens s' x =
            (if x = ?v then Some ?tok
             else if x = k \<or> (x = old \<and> DeviceID t \<noteq> deviceID) then None
             else tokens s x)"
    and ix: "\<forall>d. deviceTokens s' d =
            (if d = deviceID then Some ?v
             else if d = DeviceID t then None
             else deviceTokens s d)"
    using code cap(1) f bound rnd
    by (cases "DeviceID t = deviceID")
       (simp_all add: ValidatePairingCode_def createTokenLocked_def generateSecureToken_def Let_def
        removeOldestTokenLocked_def)
  from run tk ix kt mn show ?thesis
    by (intro exI[of _ ?tok] exI[of _ s'] exI[of _ k] exI[of _ t]) simp
qed

theorem capacity_check_precedes_supersession_witness:
  "pairingCodes fullService ''048213'' = Some demoCode \<and> \<not> pc_ExpiresAt demoCode < 60 \<and>
   \<not> Used demoCode \<and> visits [''tokA'', ''tokB''] (tokens fullService) \<and>
   maxActiveDevices fullService \<le> activeCount [''tokA'', ''tokB''] 60 (tokens fullService) \<and>
   0 < maxActiveDevices fullService \<and> deviceTokens fullService ''devB'' = Some ''tokB'' \<and>
   rand_Read 32 (replicate 32 7) = Some (replicate 32 7, []) \<and>
   (\<exists>tok s' k t.
      ValidatePairingCode toyDigest [''tokA'', ''tokB''] 60 (replicate 32 7) ''048213'' ''devB''
        ''Tablet'' fullService = (Inr tok, s', []) \<and>
      Value tok = ''tok-0'' \<and> DeviceID tok = ''devB'' \<and>
      tokens fullService k = Some t \<and>
      (\<forall>k' t'. tokens fullService k' = Some t' \<longrightarrow> LastUsedAt t \<le> LastUsedAt t') \<and>
      (\<forall>x. tokens s' x =
            (if x = Value tok then Some tok
             else if x = k \<or> (x = ''tokB'' \<and> DeviceID t \<noteq> ''devB'') then None
             else tokens fullService x)) \<and>
      (\<forall>d. deviceTokens s' d =
            (if d = ''devB'' then Some (Value tok)
             else if d = DeviceID t then None
             else deviceTokens fullService d))) \<and>
   tokens (fst (snd (ValidatePairingCode toyDigest [''tokA'', ''tokB''] 60 (replicate 32 7)
        ''048213'' ''devB'' ''Tablet'' fullService))) ''tokA'' = None \<and>
   tokens (fst (snd (ValidatePairingCode toyDigest [''tokA'', ''tokB''] 60 (replicate 32 7)
        ''048213'' ''devB'' ''Tablet'' fullService))) ''tokB'' = None \<and>
   deviceTokens (fst (snd (ValidatePairingCode toyDigest [''tokA'', ''tokB''] 60 (replicate 32 7)
        ''048213'' ''devB'' ''Tablet'' fullService))) ''devB'' = Some ''tok-0''"
proof -
  have h1: "pairingCodes fullService ''048213'' = Some demoCode" by (simp add: demo_defs)
  have h2: "\<not> pc_ExpiresAt demoCode < 60" and h3: "\<not> Used demoCode"
    by (simp_all add: demoCode_def)
  have h4: "visits [''tokA'', ''tokB''] (tokens fullService)"
    by (auto simp: visits_def demo_defs)
  have h5: "maxActiveDevices fullService \<le> activeCount [''tokA'', ''tokB''] 60 (tokens fullService)"
    by (simp add: demo_defs activeCount_def)
  have h6: "0 < maxActiveDevices fullService" by (simp add: demo_defs)
  have h7: "deviceTokens fullService ''devB'' = Some ''tokB''" by (simp add: demo_defs)
  have h8: "rand_Read 32 (replicate 32 7) = Some (replicate 32 7, [])"
    by (simp add: rand_Read_def)
  have d: "toyDigest (replicate 32 7 @ [word_of_int 60]) = ''tok-0''"
    by (simp add: toyDigest_def charset_def)
  note inst = capacity_check_precedes_supersession [where digest = toyDigest and deviceName = "''Tablet''",
      OF h1 h2 h3 h4 h5 h6 h7 h8, unfolded d]
  show ?thesis
    apply (intro conjI)
    apply (rule h1 h2 h3 h4 h5 h6 h7 h8 inst)+
    apply (simp_all add: demo_defs redeem_defs)
    done
qed

text \<open>The claim as the specification words it fails: \<open>fullService\<close> is exactly at its
  ceiling of two, the redeeming device \<open>devB\<close> is one of the two bound devices, and its
  redemption evicts the credential of the other device \<open>devA\<close>.\<close>

theorem supersession_first_counterexample:
  "deviceTokens fullService ''devB'' = Some ''tokB'' \<and>
   activeCount [''tokA'', ''tokB''] 60 (tokens fullService) = maxActiveDevices fullService \<and>
   tokens fullService ''tokA'' = Some tokenA \<and> DeviceID tokenA = ''devA'' \<and>
   deviceTokens fullService ''devA'' = Some ''tokA'' \<and>
   fst (ValidatePairingCode toyDigest [''tokA'', ''tokB''] 60 (replicate 32 7) ''048213'' ''devB''
        ''Tablet'' fullService) = Inr (tokenC\<lparr>DeviceID := ''devB'', DeviceName := ''Tablet''\<rparr>) \<and>
   tokens (fst (snd (ValidatePairingCode toyDigest [''tokA'', ''tokB''] 60 (replicate 32 7)
        ''048213'' ''devB'' ''Tablet'' fullService))) ''tokA'' = None \<and>
   deviceTokens (fst (snd (ValidatePairingCode toyDigest [''tokA'', ''tokB''] 60 (replicate 32 7)
        ''048213'' ''devB'' ''Tablet'' fullService))) ''devA'' = None"
  by (simp add: demo_defs redeem_defs)

subsection \<open>A failure of token generation in the middle of a redemption\<close>

text \<open>
  Claim C10, as the code has it. If the generation of the token value fails after the checks
  of the code have passed, \<open>ValidatePairingCode\<close> returns an error, yet the pairing code has
  been removed from the code table; when the ceiling was reached, the least recently used
  credential has been evicted with the index row of its device, whichever device it belongs
  to; and if the redeeming device was bound and that eviction did not take the index row of
  the redeeming device, the old credential of the device has been deleted from the token
  table while the device index still gives the deleted value.
\<close>

theorem failed_generation_partial_redeem:
  assumes code: "pairingCodes s code = Some pc" "\<not> pc_ExpiresAt pc < now" "\<not> Used pc"
    and fail: "rand_Read 32 r = None"
  shows "\<exists>s'. ValidatePairingCode digest order now r code deviceID deviceName s
                 = (Inl ErrGenerateToken, s', r) \<and>
           pairingCodes s' code = None \<and>
           (\<forall>k t. maxActiveDevices s \<le> activeCount order now (tokens s) \<and>
                  findOldest order (tokens s) = Some (k, t) \<longrightarrow>
                  tokens s' k = None \<and> deviceTokens s' (DeviceID t) = None) \<and>
           (\<forall>old. deviceTokens s deviceID = Some old \<and>
                  \<not> (maxActiveDevices s \<le> activeCount order now (tokens s) \<and>
                     (\<exists>k t. findOldest order (tokens s) = Some (k, t) \<and> DeviceID t = deviceID)) \<longrightarrow>
                  tokens s' old = None \<and> deviceTokens s' deviceID = Some old)"
proof (cases "maxActiveDevices s \<le> activeCount order now (tokens s)")
  case False
  with code fail show ?thesis
    by (simp add: ValidatePairingCode_def createTokenLocked_def generateSecureToken_def Let_def
        split: option.splits)
next
  case True
  show ?thesis
  proof (cases "findOldest order (tokens s)")
    case None
    with True code fail show ?thesis
      by (simp add: ValidatePairingCode_def createTokenLocked_def generateSecureToken_def Let_def
          removeOldestTokenLocked_def split: option.splits)
  next
    case (Some a)
    obtain k t where a: "a = (k, t)" by (cases a)
    with Some True code fail show ?thesis
      by (simp add: ValidatePairingCode_def createTokenLocked_def generateSecureToken_def Let_def
          removeOldestTokenLocked_def split: option.splits)
  qed
qed

theorem failed_generation_partial_redeem_witness:
  "pairingCodes fullService ''048213'' = Some demoCode \<and> \<not> pc_ExpiresAt demoCode < 60 \<and>
   \<not> Used demoCode \<and> rand_Read 32 [] = None \<and>
   (\<exists>s'. ValidatePairingCode toyDigest [''tokA'', ''tokB''] 60 [] ''048213'' ''devB'' ''Tablet''
            fullService = (Inl ErrGenerateToken, s', []) \<and>
      pairingCodes s' ''048213'' = None \<and>
      (\<forall>k t. maxActiveDevices fullService \<le> activeCount [''tokA'', ''tokB''] 60 (tokens fullService) \<and>
             findOldest [''tokA'', ''tokB''] (tokens fullService) = Some (k, t) \<longrightarrow>
             tokens s' k = None \<and> deviceTokens s' (DeviceID t) = None) \<and>
      (\<forall>old. deviceTokens fullService ''devB'' = Some old \<and>
             \<not> (maxActiveDevices fullService \<le> activeCount [''tokA'', ''tokB''] 60 (tokens fullService) \<and>
                (\<exists>k t. findOldest [''tokA'', ''tokB''] (tokens fullService) = Some (k, t) \<and>
                       DeviceID t = ''devB'')) \<longrightarrow>
             tokens s' old = None \<and> deviceTokens s' ''devB'' = Some old)) \<and>
   maxActiveDevices fullService \<le> activeCount [''tokA'', ''tokB''] 60 (tokens fullService) \<and>
   findOldest [''tokA'', ''tokB''] (tokens fullService) = Some (''tokA'', tokenA) \<and>
   DeviceID tokenA = ''devA'' \<and> deviceTokens fullService ''devB'' = Some ''tokB'' \<and>
   fst (ValidatePairingCode toyDigest [''tokA'', ''tokB''] 60 [] ''048213'' ''devB'' ''Tablet''
          fullService) = Inl ErrGenerateToken \<and>
   pairingCodes (fst (snd (ValidatePairingCode toyDigest [''tokA'', ''tokB''] 60 [] ''048213''
          ''devB'' ''Tablet'' fullService))) ''048213'' = None \<and>
   tokens (fst (snd (ValidatePairingCode toyDigest [''tokA'', ''tokB''] 60 [] ''048213''
          ''devB'' ''Tablet'' fullService))) ''tokA'' = None \<and>
   deviceTokens (fst (snd (ValidatePairingCode toyDigest [''tokA'', ''tokB''] 60 [] ''048213''
          ''devB'' ''Tablet'' fullService))) ''devA'' = None \<and>
   tokens (fst (snd (ValidatePairingCode toyDigest [''tokA'', ''tokB''] 60 [] ''048213''
          ''devB'' ''Tablet'' fullService))) ''tokB'' = None \<and>
   deviceTokens (fst (snd (ValidatePairingCode toyDigest [''tokA'', ''tokB''] 60 [] ''048213''
          ''devB'' ''Tablet'' fullService))) ''devB'' = Some ''tokB''"
proof -
  have h1: "pairingCodes fullService ''048213'' = Some demoCode" by (simp add: demo_defs)
  have h2: "\<not> pc_ExpiresAt demoCode < 60" and h3: "\<not> Used demoCode"
    by (simp_all add: demoCode_def)
  have h4: "rand_Read 32 [] = None" by (simp add: rand_Read_def)
  note inst = failed_generation_partial_redeem [where digest = toyDigest and order = "[''tokA'', ''tokB'']"
      and deviceID = "''devB''" and deviceName = "''Tablet''", OF h1 h2 h3 h4]
  show ?thesis
    apply (intro conjI)
    apply (rule h1 h2 h3 h4 inst)+
    apply (simp_all add: demo_defs redeem_defs)
    done
qed

text \<open>The last part of the claim is not true of every bound device: with a ceiling of one and
  the redeeming device \<open>devA\<close> the only bound one, the eviction removes the credential of
  \<open>devA\<close> and its index row, so after the failed redemption the index does not give the
  deleted value.\<close>

theorem failed_generation_own_eviction_counterexample:
  "deviceTokens singleService ''devA'' = Some ''tokA'' \<and>
   tokens singleService ''tokA'' = Some tokenA \<and>
   pairingCodes singleService ''048213'' = Some demoCode \<and>
   fst (ValidatePairingCode toyDigest [''tokA''] 60 [] ''048213'' ''devA'' ''Pixel 7''
          singleService) = Inl ErrGenerateToken \<and>
   tokens (fst (snd (ValidatePairingCode toyDigest [''tokA''] 60 [] ''048213'' ''devA''
          ''Pixel 7'' singleService))) ''tokA'' = None \<and>
   deviceTokens (fst (snd (ValidatePairingCode toyDigest [''tokA''] 60 [] ''048213'' ''devA''
          ''Pixel 7'' singleService))) ''devA'' \<noteq> Some ''tokA''"
  by (simp add: demo_defs redeem_defs)

subsection \<open>Refreshing a token\<close>

text \<open>
  Claim C5, as the code has it. For every stored credential whose expiry is not in the past,
  \<open>RefreshToken\<close> sets its expiry to now plus the credential lifetime and its last-used time
  to now, stores and returns it; the new expiry is strictly later than the old one exactly
  when the old expiry is earlier than now plus the lifetime. For a stored credential whose
  expiry is in the past, \<open>RefreshToken\<close> fails with \<open>ErrTokenExpired\<close> and removes the
  credential and the index row of its device.
\<close>

theorem RefreshToken_spec:
  assumes "tokens s v = Some t"
  shows "(ExpiresAt t < now \<longrightarrow>
            RefreshToken now v s =
              (Inl ErrTokenExpired,
               s\<lparr>tokens := (tokens s)(v := None),
                 deviceTokens := (deviceTokens s)(DeviceID t := None)\<rparr>)) \<and>
         (\<not> ExpiresAt t < now \<longrightarrow>
            (\<exists>t'. RefreshToken now v s = (Inr t', s\<lparr>tokens := (tokens s)(v \<mapsto> t')\<rparr>) \<and>
                  t' = t\<lparr>ExpiresAt := now + tokenExpiry s, LastUsedAt := now\<rparr> \<and>
                  (ExpiresAt t < ExpiresAt t' \<longleftrightarrow> ExpiresAt t < now + tokenExpiry s)))"
  using assms by (simp add: RefreshToken_def Let_def)

theorem RefreshToken_spec_witness:
  "tokens demoService ''tokA'' = Some tokenA \<and>
   ExpiresAt tokenA < 2000 \<and>
   fst (RefreshToken 2000 ''tokA'' demoService) = Inl ErrTokenExpired \<and>
   tokens (snd (RefreshToken 2000 ''tokA'' demoService)) ''tokA'' = None \<and>
   deviceTokens (snd (RefreshToken 2000 ''tokA'' demoService)) ''devA'' = None \<and>
   \<not> ExpiresAt tokenA < 500 \<and> ExpiresAt tokenA < 500 + tokenExpiry demoService \<and>
   fst (RefreshToken 500 ''tokA'' demoService) = Inr (tokenA\<lparr>ExpiresAt := 1500, LastUsedAt := 500\<rparr>) \<and>
   tokens (snd (RefreshToken 500 ''tokA'' demoService)) ''tokA''
     = Some (tokenA\<lparr>ExpiresAt := 1500, LastUsedAt := 500\<rparr>) \<and>
   ExpiresAt tokenA < ExpiresAt (tokenA\<lparr>ExpiresAt := 1500, LastUsedAt := 500\<rparr>)"
proof -
  have h: "tokens demoService ''tokA'' = Some tokenA" by (simp add: demo_defs)
  have t: "tokenExpiry demoService = 1000" by (simp add: demo_defs)
  from RefreshToken_spec [OF h, of 2000] RefreshToken_spec [OF h, of 500] h t
  show ?thesis by (simp add: tokenA_def)
qed

text \<open>The expiry does not always strictly increase. A credential loaded from a document that
  a run with a longer lifetime wrote has its expiry shortened by a refresh; and a credential
  refreshed at the instant of its issue keeps its expiry.\<close>

theorem refresh_not_increasing_counterexample:
  "tokens (snd (LoadState (Decoded longLivedDoc) 10 (emptyService demoConfig))) ''tokL''
     = Some tokenL \<and>
   20 < ExpiresAt tokenL \<and>
   fst (RefreshToken 20 ''tokL'' (snd (LoadState (Decoded longLivedDoc) 10 (emptyService demoConfig))))
     = Inr (tokenL\<lparr>ExpiresAt := 1020, LastUsedAt := 20\<rparr>) \<and>
   \<not> ExpiresAt tokenL < ExpiresAt (tokenL\<lparr>ExpiresAt := 1020, LastUsedAt := 20\<rparr>) \<and>
   tokens (fst (snd (ValidatePairingCode toyDigest [''tokA'', ''tokB''] 60 (replicate 32 7)
     ''048213'' ''devC'' ''Phone'' demoService))) ''tok-0'' = Some tokenC \<and>
   60 < ExpiresAt tokenC \<and>
   fst (RefreshToken 60 ''tok-0'' (fst (snd (ValidatePairingCode toyDigest [''tokA'', ''tokB''] 60
     (replicate 32 7) ''048213'' ''devC'' ''Phone'' demoService)))) = Inr tokenC \<and>
   \<not> ExpiresAt tokenC < ExpiresAt tokenC"
  by (simp add: LoadState_def importState_def longLivedDoc_def tokenL_def RefreshToken_def
      demo_defs redeem_defs)

subsection \<open>Saving and loading\<close>

text \<open>
  Claim C6, as the code has it. After \<open>SaveState\<close> of a store with a storage path, a fresh
  empty store that runs \<open>LoadState\<close> on the saved document contains exactly the credentials
  whose expiry is in the future both at save time and at load time, each with its fields
  intact; these are exactly the credentials whose expiry was in the future at save time when
  the clock of the load is not later than that of the save. No credential expired at save
  time is restored, every restored index row is a row of the saved index, and every restored
  index row targets a restored credential.
\<close>

theorem save_load_roundtrip:
  assumes "storagePath s \<noteq> []" and "cfg_StoragePath config \<noteq> []"
  shows "\<exists>doc s1.
     SaveState True True True tsave s = (None, Some doc) \<and>
     LoadState (Decoded doc) tload (emptyService config) = (None, s1) \<and>
     (\<forall>k. tokens s1 k =
        (case tokens s k of
           None \<Rightarrow> None
         | Some v \<Rightarrow> if tsave < ExpiresAt v \<and> tload < ExpiresAt v then Some v else None)) \<and>
     (\<forall>d. deviceTokens s1 d =
        (case deviceTokens s d of
           None \<Rightarrow> None
         | Some v \<Rightarrow> if tokens s1 v \<noteq> None then Some v else None)) \<and>
     (\<forall>d v. deviceTokens s1 d = Some v \<longrightarrow> tokens s1 v \<noteq> None) \<and>
     (tload \<le> tsave \<longrightarrow>
        (\<forall>k. tokens s1 k =
           (case tokens s k of
              None \<Rightarrow> None
            | Some v \<Rightarrow> if tsave < ExpiresAt v then Some v else None)))"
  using assms
  by (auto simp: SaveState_def LoadState_def snapshot_def importState_def emptyService_def Let_def
      split: option.splits)

theorem save_load_roundtrip_witness:
  "storagePath demoService \<noteq> [] \<and> cfg_StoragePath demoConfig \<noteq> [] \<and>
   (\<exists>doc s1.
     SaveState True True True 500 demoService = (None, Some doc) \<and>
     LoadState (Decoded doc) 600 (emptyService demoConfig) = (None, s1) \<and>
     (\<forall>k. tokens s1 k =
        (case tokens demoService k of
           None \<Rightarrow> None
         | Some v \<Rightarrow> if 500 < ExpiresAt v \<and> 600 < ExpiresAt v then Some v else None)) \<and>
     (\<forall>d. deviceTokens s1 d =
        (case deviceTokens demoService d of
           None \<Rightarrow> None
         | Some v \<Rightarrow> if tokens s1 v \<noteq> None then Some v else None)) \<and>
     (\<forall>d v. deviceTokens s1 d = Some v \<longrightarrow> tokens s1 v \<noteq> None) \<and>
     ((600::int) \<le> 500 \<longrightarrow>
        (\<forall>k. tokens s1 k =
           (case tokens demoService k of
              None \<Rightarrow> None
            | Some v \<Rightarrow> if 500 < ExpiresAt v then Some v else None)))) \<and>
   tokens (snd (LoadState (Decoded (snapshot 500 demoService)) 600 (emptyService demoConfig)))
     ''tokA'' = Some tokenA \<and>
   tokens (snd (LoadState (Decoded (snapshot 1002 demoService)) 1003 (emptyService demoConfig)))
     ''tokA'' = None \<and>
   tokens (snd (LoadState (Decoded (snapshot 1002 demoService)) 1003 (emptyService demoConfig)))
     ''tokB'' = Some tokenB \<and>
   deviceTokens (snd (LoadState (Decoded (snapshot 1002 demoService)) 1003 (emptyService demoConfig)))
     ''devA'' = None \<and>
   deviceTokens (snd (LoadState (Decoded (snapshot 1002 demoService)) 1003 (emptyService demoConfig)))
     ''devB'' = Some ''tokB''"
proof -
  have h1: "storagePath demoService \<noteq> []" and h2: "cfg_StoragePath demoConfig \<noteq> []"
    by (simp_all add: demo_defs)
  note inst = save_load_roundtrip [OF h1 h2, of 500 600]
  show ?thesis
    apply (intro conjI)
    apply (rule h1 h2 inst)+
    apply (simp_all add: LoadState_def snapshot_def importState_def demo_defs Let_def)
    done
qed

text \<open>A credential whose expiry was in the future at save time and has passed at load time
  is not restored.\<close>

theorem load_filters_again_counterexample:
  "tokens demoService ''tokA'' = Some tokenA \<and> 500 < ExpiresAt tokenA \<and>
   SaveState True True True 500 demoService = (None, Some (snapshot 500 demoService)) \<and>
   fst (LoadState (Decoded (snapshot 500 demoService)) 1001 (emptyService demoConfig)) = None \<and>
   tokens (snd (LoadState (Decoded (snapshot 500 demoService)) 1001 (emptyService demoConfig)))
     ''tokA'' = None"
  by (simp add: SaveState_def LoadState_def snapshot_def importState_def demo_defs Let_def)

subsection \<open>Consistency of the device index with the token table\<close>

text \<open>
  Claim C7 says that every operation keeps the device index and the token table mutually
  consistent, also when it returns an error. \<open>ValidatePairingCode\<close> does not: when a bound
  device redeems a code and the generation of the token value fails, \<open>createTokenLocked\<close>
  has deleted the old token from the table and returns before it overwrites the index row,
  which still gives the deleted value. The store \<open>demoService\<close> is consistent, and the store
  after the failed redemption by \<open>devB\<close> is not.
\<close>

theorem failed_redeem_breaks_consistency:
  "deviceTokens demoService ''devA'' = Some ''tokA'' \<and> tokens demoService ''tokA'' = Some tokenA \<and>
   deviceTokens demoService ''devB'' = Some ''tokB'' \<and> tokens demoService ''tokB'' = Some tokenB \<and>
   DeviceID tokenA = ''devA'' \<and> DeviceID tokenB = ''devB'' \<and>
   pairingCodes demoService ''048213'' = Some demoCode \<and>
   ValidatePairingCode toyDigest [''tokA'', ''tokB''] 60 [] ''048213'' ''devB'' ''Tablet''
     demoService =
     (Inl ErrGenerateToken,
      demoService\<lparr>pairingCodes := Map.empty, tokens := [''tokA'' \<mapsto> tokenA]\<rparr>, []) \<and>
   deviceTokens (demoService\<lparr>pairingCodes := Map.empty, tokens := [''tokA'' \<mapsto> tokenA]\<rparr>)
     ''devB'' = Some ''tokB'' \<and>
   tokens (demoService\<lparr>pairingCodes := Map.empty, tokens := [''tokA'' \<mapsto> tokenA]\<rparr>)
     ''tokB'' = None"
  by (simp add: demo_defs redeem_defs)

text \<open>In terms of the predicate \<open>consistent\<close>: the store before the call satisfies it, the
  store after the failed redemption does not.\<close>

lemma demoService_consistent: "consistent demoService"
  by (auto simp: consistent_def demo_defs split: if_splits)

lemma dangling_row_not_consistent:
  assumes "deviceTokens s d = Some v" and "tokens s v = None"
  shows "\<not> consistent s"
  using assms unfolding consistent_def by blast

lemma demoService_failed_redeem_not_consistent:
  "\<not> consistent (fst (snd (ValidatePairingCode toyDigest [''tokA'', ''tokB''] 60 []
       ''048213'' ''devB'' ''Tablet'' demoService)))"
proof -
  have "deviceTokens (fst (snd (ValidatePairingCode toyDigest [''tokA'', ''tokB''] 60 []
       ''048213'' ''devB'' ''Tablet'' demoService))) ''devB'' = Some ''tokB''"
    and "tokens (fst (snd (ValidatePairingCode toyDigest [''tokA'', ''tokB''] 60 []
       ''048213'' ''devB'' ''Tablet'' demoService))) ''tokB'' = None"
    by (simp_all add: demo_defs redeem_defs)
  then show ?thesis by (rule dangling_row_not_consistent)
qed

subsection \<open>Generating a pairing code\<close>

text \<open>The two passes of \<open>generateNumericCode\<close> write the digit of each random byte; the code
  has the requested length and digits only. The retry loop of \<open>GeneratePairingCode\<close> returns
  for every positive code length, since each draw consumes bytes of the random supply.\<close>

lemma fold_list_update_upt:
  "n \<le> length res \<Longrightarrow>
     fold (\<lambda>i res. res[i := f i]) [0..<n] res = map f [0..<n] @ drop n res"
proof (induction n)
  case 0
  then show ?case by simp
next
  case (Suc n)
  then have n: "n < length res" by simp
  have "fold (\<lambda>i res. res[i := f i]) [0..<Suc n] res
          = (map f [0..<n] @ drop n res)[n := f n]"
    using Suc by simp
  also have "\<dots> = map f [0..<n] @ (drop n res)[0 := f n]"
    by (simp add: list_update_append)
  also have "drop n res = res ! n # drop (Suc n) res"
    using n by (simp add: Cons_nth_drop_Suc)
  finally show ?case by simp
qed

lemma fill_digits_map:
  assumes "n \<le> length res" and "n \<le> length randomBytes"
  shows "fill_digits randomBytes n res
           = map (\<lambda>b. charset ! unat (b mod 10)) (take n randomBytes) @ drop n res"
proof -
  have "map (\<lambda>i. charset ! unat ((randomBytes ! i) mod 10)) [0..<n]
          = map (\<lambda>b. charset ! unat (b mod 10)) (map (\<lambda>i. randomBytes ! i) [0..<n])"
    by simp
  also have "map (\<lambda>i. randomBytes ! i) [0..<n] = take n randomBytes"
    using assms(2) by (intro nth_equalityI) simp_all
  finally show ?thesis
    using assms(1) by (simp add: fill_digits_def fold_list_update_upt)
qed

lemma generateNumericCode_ok:
  assumes "0 \<le> len" and "nat len \<le> length r"
  shows "generateNumericCode len r
           = (Inr (map (\<lambda>b. charset ! unat (b mod 10)) (take (nat len) r)), drop (nat len) r)"
  using assms by (simp add: generateNumericCode_def rand_Read_def fill_digits_map)

lemma digit_in_charset: "charset ! unat ((b :: 8 word) mod 10) \<in> set ''0123456789''"
proof -
  have "unat (b mod 10) < 10"
    by (simp add: unat_mod)
  then have "charset ! unat (b mod 10) \<in> set charset"
    by (intro nth_mem) (simp add: charset_def)
  then show ?thesis by (simp add: charset_def)
qed

lemma generateNumericCode_Inr:
  assumes "generateNumericCode len r = (Inr code, r')"
  shows "int (length code) = len \<and> numeric code \<and> r' = drop (nat len) r \<and> nat len \<le> length r"
proof -
  from assms have len: "0 \<le> len" and r: "nat len \<le> length r"
    by (auto simp: generateNumericCode_def rand_Read_def split: if_splits)
  from generateNumericCode_ok[OF len r] assms
  have c: "code = map (\<lambda>b. charset ! unat (b mod 10)) (take (nat len) r)"
    and r': "r' = drop (nat len) r" by simp_all
  from c have "numeric code"
    using digit_in_charset by (auto simp: numeric_def)
  moreover from c r len have "int (length code) = len" by simp
  ultimately show ?thesis using r' r by simp
qed

lemma uniqueCodeLoop_Inr:
  assumes "uniqueCodeLoop codes len code r = Some (Inr c, r')"
  shows "codes c = None \<and> (c = code \<or> (int (length c) = len \<and> numeric c))"
proof -
  have "\<forall>c r'. y = (Inr c, r') \<longrightarrow>
          codes c = None \<and> (c = code \<or> (int (length c) = len \<and> numeric c))"
    if "uniqueCodeLoop codes len code r = Some y" for y
  proof (rule uniqueCodeLoop.raw_induct
      [where P = "\<lambda>codes len code r y. \<forall>c r'. y = (Inr c, r') \<longrightarrow>
          codes c = None \<and> (c = code \<or> (int (length c) = len \<and> numeric c))", OF _ that],
      goal_cases)
    case (1 loop codes len code r y)
    show ?case
    proof (cases "codes code = None")
      case True
      with 1(2) show ?thesis by auto
    next
      case False
      show ?thesis
      proof (cases "generateNumericCode len r")
        case (Pair res r1)
        show ?thesis
        proof (cases res)
          case (Inl e)
          with Pair False 1(2) show ?thesis by auto
        next
          case (Inr code1)
          with Pair False 1(2) have call: "loop codes len code1 r1 = Some y" by simp
          from generateNumericCode_Inr[of len r code1 r1] Pair Inr
          have g: "int (length code1) = len \<and> numeric code1" by simp
          from 1(1)[OF call]
          have ih: "\<forall>c r'. y = (Inr c, r') \<longrightarrow>
              codes c = None \<and> (c = code1 \<or> (int (length c) = len \<and> numeric c))" .
          show ?thesis
          proof (intro allI impI)
            fix c r' assume "y = (Inr c, r')"
            with ih have "codes c = None" and "c = code1 \<or> (int (length c) = len \<and> numeric c)"
              by blast+
            with g show "codes c = None \<and> (c = code \<or> (int (length c) = len \<and> numeric c))"
              by auto
          qed
        qed
      qed
    qed
  qed
  with assms show ?thesis by blast
qed

lemma uniqueCodeLoop_returns:
  assumes "0 < len"
  shows "\<exists>y. uniqueCodeLoop codes len code r = Some y"
proof (induction "length r" arbitrary: code r rule: less_induct)
  case less
  show ?case
  proof (cases "codes code = None")
    case True
    then show ?thesis by (subst uniqueCodeLoop.simps) simp
  next
    case False
    show ?thesis
    proof (cases "generateNumericCode len r")
      case (Pair res r1)
      show ?thesis
      proof (cases res)
        case (Inl e)
        with Pair False show ?thesis by (subst uniqueCodeLoop.simps) simp
      next
        case (Inr code1)
        from generateNumericCode_Inr[of len r code1 r1] Pair Inr
        have "r1 = drop (nat len) r" and "nat len \<le> length r" by simp_all
        moreover from assms have "0 < nat len" by simp
        ultimately have "length r1 < length r" by simp
        from less[OF this] obtain y where "uniqueCodeLoop codes len code1 r1 = Some y" by blast
        with Pair Inr False show ?thesis by (subst uniqueCodeLoop.simps) simp
      qed
    qed
  qed
qed

lemma GeneratePairingCode_returns:
  assumes "0 < codeLength s"
  shows "\<exists>res. GeneratePairingCode now r s = Some res"
proof (cases "generateNumericCode (codeLength s) r")
  case (Pair res r1)
  show ?thesis
  proof (cases res)
    case (Inl e)
    with Pair show ?thesis
      by (simp add: GeneratePairingCode_def cleanupExpiredCodesLocked_def Let_def)
  next
    case (Inr code0)
    from uniqueCodeLoop_returns[OF assms]
    obtain y where "uniqueCodeLoop (pairingCodes (cleanupExpiredCodesLocked now s))
        (codeLength s) code0 r1 = Some y" by blast
    with Pair Inr show ?thesis
      by (cases y; cases "fst y")
        (simp_all add: GeneratePairingCode_def cleanupExpiredCodesLocked_def Let_def)
  qed
qed

text \<open>
  Claim C8. Every code returned by \<open>GeneratePairingCode\<close> has length equal to the configured
  code length, consists only of the decimal digits 0-9, and differs from every code stored
  in the pairing-code table at the moment of insertion, that is after the purge of the
  expired and used codes; in particular it differs from every unused, unexpired code of the
  table before the call. The code is stored with creation time now and expiry now plus the
  code lifetime.
\<close>

theorem GeneratePairingCode_code:
  assumes "GeneratePairingCode now r s = Some (Inr pc, s', r')"
  shows "int (length (Code pc)) = codeLength s \<and> numeric (Code pc) \<and>
         pairingCodes (cleanupExpiredCodesLocked now s) (Code pc) = None \<and>
         (\<forall>c pc'. pairingCodes s c = Some pc' \<and> \<not> Used pc' \<and> \<not> pc_ExpiresAt pc' < now
            \<longrightarrow> c \<noteq> Code pc) \<and>
         pc = \<lparr>Code = Code pc, pc_CreatedAt = now, pc_ExpiresAt = now + codeExpiry s,
               pc_DeviceID = [], Used = False\<rparr> \<and>
         s' = (cleanupExpiredCodesLocked now s)
                \<lparr>pairingCodes := (pairingCodes (cleanupExpiredCodesLocked now s))(Code pc \<mapsto> pc)\<rparr>"
proof -
  let ?s = "cleanupExpiredCodesLocked now s"
  have cl: "codeLength ?s = codeLength s" and ce: "codeExpiry ?s = codeExpiry s"
    by (simp_all add: cleanupExpiredCodesLocked_def)
  from assms obtain code0 r1 where
    g: "generateNumericCode (codeLength s) r = (Inr code0, r1)"
    by (cases "generateNumericCode (codeLength s) r"; cases "fst (generateNumericCode (codeLength s) r)")
       (auto simp: GeneratePairingCode_def Let_def cl)
  from assms g obtain code where
    u: "uniqueCodeLoop (pairingCodes ?s) (codeLength s) code0 r1 = Some (Inr code, r')"
    and pc: "pc = \<lparr>Code = code, pc_CreatedAt = now, pc_ExpiresAt = now + codeExpiry s,
               pc_DeviceID = [], Used = False\<rparr>"
    and s': "s' = ?s\<lparr>pairingCodes := (pairingCodes ?s)(code \<mapsto> pc)\<rparr>"
    by (auto simp: GeneratePairingCode_def Let_def cl ce split: option.splits sum.splits)
  from generateNumericCode_Inr[OF g]
  have g0: "int (length code0) = codeLength s \<and> numeric code0" by simp
  from uniqueCodeLoop_Inr[OF u] g0
  have free: "pairingCodes ?s code = None"
    and shape: "int (length code) = codeLength s \<and> numeric code" by auto
  have act: "\<forall>c pc'. pairingCodes s c = Some pc' \<and> \<not> Used pc' \<and> \<not> pc_ExpiresAt pc' < now
            \<longrightarrow> c \<noteq> code"
    using free by (auto simp: cleanupExpiredCodesLocked_def)
  from pc have "Code pc = code" by simp
  with free shape act pc s' show ?thesis by simp
qed

theorem GeneratePairingCode_code_witness:
  "GeneratePairingCode 60 [0, 4, 8, 2, 1, 3, 11, 21, 31, 41, 51, 61] demoService =
     Some (Inr newCode,
           (cleanupExpiredCodesLocked 60 demoService)
             \<lparr>pairingCodes :=
                (pairingCodes (cleanupExpiredCodesLocked 60 demoService))(''111111'' \<mapsto> newCode)\<rparr>,
           []) \<and>
   pairingCodes (cleanupExpiredCodesLocked 60 demoService) ''048213'' = Some demoCode \<and>
   int (length (Code newCode)) = codeLength demoService \<and> numeric (Code newCode) \<and>
   pairingCodes (cleanupExpiredCodesLocked 60 demoService) (Code newCode) = None \<and>
   pairingCodes demoService ''048213'' = Some demoCode \<and> \<not> Used demoCode \<and>
   \<not> pc_ExpiresAt demoCode < 60 \<and> ''048213'' \<noteq> Code newCode"
proof -
  have g1: "generateNumericCode 6 [0, 4, 8, 2, 1, 3, 11, 21, 31, 41, 51, 61]
              = (Inr ''048213'', [11, 21, 31, 41, 51, 61])"
    by (simp add: generateNumericCode_ok charset_def)
  have g2: "generateNumericCode 6 [11, 21, 31, 41, 51, 61] = (Inr ''111111'', [])"
    by (simp add: generateNumericCode_ok charset_def)
  have old: "pairingCodes (cleanupExpiredCodesLocked 60 demoService) ''048213'' = Some demoCode"
    and free: "pairingCodes (cleanupExpiredCodesLocked 60 demoService) ''111111'' = None"
    by (simp_all add: cleanupExpiredCodesLocked_def demo_defs)
  have u2: "uniqueCodeLoop (pairingCodes (cleanupExpiredCodesLocked 60 demoService)) 6 ''111111'' []
              = Some (Inr ''111111'', [])"
    using free by (subst uniqueCodeLoop.simps) simp
  have u1: "uniqueCodeLoop (pairingCodes (cleanupExpiredCodesLocked 60 demoService)) 6 ''048213''
              [11, 21, 31, 41, 51, 61] = Some (Inr ''111111'', [])"
    using old g2 u2 by (subst uniqueCodeLoop.simps) simp
  have cl: "codeLength (cleanupExpiredCodesLocked 60 demoService) = 6"
    and ce: "codeExpiry (cleanupExpiredCodesLocked 60 demoService) = 300"
    by (simp_all add: cleanupExpiredCodesLocked_def demo_defs)
  have run: "GeneratePairingCode 60 [0, 4, 8, 2, 1, 3, 11, 21, 31, 41, 51, 61] demoService =
     Some (Inr newCode,
           (cleanupExpiredCodesLocked 60 demoService)
             \<lparr>pairingCodes :=
                (pairingCodes (cleanupExpiredCodesLocked 60 demoService))(''111111'' \<mapsto> newCode)\<rparr>,
           [])"
    by (simp add: GeneratePairingCode_def Let_def cl ce g1 u1 newCode_def)
  have act: "pairingCodes demoService ''048213'' = Some demoCode" "\<not> Used demoCode"
    "\<not> pc_ExpiresAt demoCode < 60"
    by (simp_all add: demo_defs)
  from GeneratePairingCode_code [OF run] run old act show ?thesis by simp
qed

subsection \<open>Where the consistency is kept\<close>

text \<open>Apart from the failed generation of a token value, the operations keep the index and the
  table consistent, in the stronger form \<open>indexed\<close>: validation, refresh, both revocations,
  the eviction, the sweeper, the issue of a code, a rejected redemption, a successful
  redemption whose token value is not yet a key of the table, and the load of a saved
  snapshot into a fresh store.\<close>

lemma emptyService_indexed: "indexed (emptyService config)"
  by (simp add: indexed_def emptyService_def)

lemma indexed_consistent: "indexed s \<Longrightarrow> consistent s"
  unfolding indexed_def consistent_def by fastforce

lemma indexed_remove:
  assumes "indexed s" and "tokens s v = Some t"
  shows "indexed (s\<lparr>tokens := (tokens s)(v := None),
                    deviceTokens := (deviceTokens s)(DeviceID t := None)\<rparr>)"
  using assms unfolding indexed_def
  by (auto split: if_splits) (metis option.inject)+

lemma indexed_touch:
  assumes "indexed s" and "tokens s v = Some t" and "DeviceID t' = DeviceID t"
  shows "indexed (s\<lparr>tokens := (tokens s)(v \<mapsto> t')\<rparr>)"
  using assms unfolding indexed_def
  by (auto split: if_splits) (metis option.inject)+

lemma indexed_pairingCodes: "indexed (s\<lparr>pairingCodes := c\<rparr>) = indexed s"
  by (simp add: indexed_def)

lemma ValidateToken_indexed: "indexed s \<Longrightarrow> indexed (snd (ValidateToken now v s))"
  by (auto simp: ValidateToken_def Let_def indexed_remove indexed_touch split: option.splits)

lemma RefreshToken_indexed: "indexed s \<Longrightarrow> indexed (snd (RefreshToken now v s))"
  by (auto simp: RefreshToken_def Let_def indexed_remove indexed_touch split: option.splits)

lemma RevokeToken_indexed: "indexed s \<Longrightarrow> indexed (snd (RevokeToken v s))"
  by (auto simp: RevokeToken_def indexed_remove split: option.splits)

lemma RevokeDevice_indexed:
  assumes "indexed s"
  shows "indexed (snd (RevokeDevice d s))"
proof (cases "deviceTokens s d")
  case None
  with assms show ?thesis by (simp add: RevokeDevice_def)
next
  case (Some v)
  with assms obtain t where t: "tokens s v = Some t" and d: "DeviceID t = d"
    unfolding indexed_def by blast
  from indexed_remove[OF assms t] d Some show ?thesis by (simp add: RevokeDevice_def)
qed

lemma removeOldestTokenLocked_indexed:
  assumes "indexed s"
  shows "indexed (removeOldestTokenLocked order s)"
proof (cases "findOldest order (tokens s)")
  case None
  with assms show ?thesis by (simp add: removeOldestTokenLocked_def)
next
  case (Some a)
  obtain k t where a: "a = (k, t)" by (cases a)
  from findOldest_Some(2)[of order "tokens s" k t] Some a have "tokens s k = Some t" by simp
  from indexed_remove[OF assms this] Some a show ?thesis by (simp add: removeOldestTokenLocked_def)
qed

lemma sweepTokenStep_indexed: "indexed s \<Longrightarrow> indexed (sweepTokenStep now v s)"
  by (auto simp: sweepTokenStep_def indexed_remove split: option.splits)

lemma fold_sweepTokenStep_indexed: "indexed s \<Longrightarrow> indexed (fold (sweepTokenStep now) order s)"
  by (induction order arbitrary: s) (simp_all add: sweepTokenStep_indexed)

lemma cleanupExpired_indexed: "indexed s \<Longrightarrow> indexed (cleanupExpired order now s)"
  unfolding cleanupExpired_def
  by (rule fold_sweepTokenStep_indexed) (simp add: cleanupExpiredCodesLocked_def indexed_pairingCodes)

lemma GeneratePairingCode_indexed:
  assumes "indexed s" and "GeneratePairingCode now r s = Some (res, s', r')"
  shows "indexed s'"
proof -
  have "indexed (cleanupExpiredCodesLocked now s)"
    using assms(1) by (simp add: cleanupExpiredCodesLocked_def indexed_pairingCodes)
  with assms(2) show ?thesis
    by (auto simp: GeneratePairingCode_def Let_def indexed_pairingCodes
        split: prod.splits sum.splits option.splits)
qed

lemma createTokenLocked_indexed:
  assumes "indexed s" and "createTokenLocked digest now r deviceID deviceName s = (Inr tok, s', r')"
    and "tokens s (Value tok) = None"
  shows "indexed s'"
proof -
  from assms(2) obtain bytes where rd: "rand_Read 32 r = Some (bytes, r')"
    by (auto simp: createTokenLocked_def generateSecureToken_def Let_def split: option.splits prod.splits)
  show ?thesis
  proof (cases "deviceTokens s deviceID")
    case None
    with assms rd show ?thesis
      unfolding indexed_def
      by (auto simp: createTokenLocked_def generateSecureToken_def Let_def split: if_splits)
         (metis option.distinct(1))+
  next
    case (Some old)
    with assms rd show ?thesis
      unfolding indexed_def
      by (auto simp: createTokenLocked_def generateSecureToken_def Let_def split: if_splits)
         (metis option.inject option.distinct(1))+
  qed
qed


lemma ValidatePairingCode_success_indexed:
  assumes "indexed s"
    and "ValidatePairingCode digest order now r code deviceID deviceName s = (Inr tok, s', r')"
    and "tokens s (Value tok) = None"
  shows "indexed s'"
proof -
  from assms(2) obtain pc where pc: "pairingCodes s code = Some pc" "\<not> pc_ExpiresAt pc < now"
      "\<not> Used pc"
    by (auto simp: ValidatePairingCode_def split: option.splits if_splits)
  let ?s1 = "if maxActiveDevices s \<le> activeCount order now (tokens s)
             then removeOldestTokenLocked order s else s"
  let ?s2 = "?s1\<lparr>pairingCodes := ((pairingCodes ?s1)
               (code \<mapsto> pc\<lparr>Used := True, pc_DeviceID := deviceID\<rparr>))(code := None)\<rparr>"
  have i1: "indexed ?s1"
    using assms(1) by (simp add: removeOldestTokenLocked_indexed)
  then have i2: "indexed ?s2" by (simp only: indexed_pairingCodes)
  have sub: "tokens ?s2 (Value tok) = None"
    using assms(3) by (auto simp: removeOldestTokenLocked_def split: option.splits)
  from assms(2) pc have "createTokenLocked digest now r deviceID deviceName ?s2 = (Inr tok, s', r')"
    by (simp add: ValidatePairingCode_def Let_def)
  from createTokenLocked_indexed[OF i2 this sub] show ?thesis .
qed

lemma ValidatePairingCode_rejected_indexed:
  assumes "indexed s"
    and "ValidatePairingCode digest order now r code deviceID deviceName s = (Inl e, s', r')"
    and "e \<noteq> ErrGenerateToken"
  shows "indexed s'"
  using assms
  by (auto simp: ValidatePairingCode_def createTokenLocked_def generateSecureToken_def Let_def
      indexed_pairingCodes split: option.splits if_splits prod.splits)

lemma snapshot_import_indexed:
  assumes "indexed s"
  shows "indexed (importState tload (snapshot tsave s) (emptyService config))"
  using assms unfolding indexed_def
  by (auto simp: importState_def snapshot_def emptyService_def Let_def split: option.splits if_splits)
     (metis option.inject option.distinct(1))+

end
